theory Spec2Isabelle
  imports Complex_Main "HOL-Library.Word" "HOL-Library.Signed_Division"
begin

unbundle bit_operations_syntax

section \<open>The visualisation container of Clementine\<close>

text \<open>
  A shallow embedding of \<^verbatim>\<open>src/visualisations/visualisationcontainer.cpp\<close>. The class
  \<^verbatim>\<open>VisualisationContainer\<close> is a record of its members and of the state of the
  collaborators it drives (the widget it inherits from, the timer, the scene, the overlay,
  the settings store, the audio engine). Every member function is a function on that
  record; one that can fail returns \<open>error + container\<close>.
\<close>

subsection \<open>Values of the toolkit\<close>

text \<open>
  What goes wrong in the C++: the division \<^verbatim>\<open>1000 / fps_\<close> with \<^verbatim>\<open>fps_ == 0\<close>, and a call
  through a null pointer (\<^verbatim>\<open>engine_->\<close>, \<^verbatim>\<open>scene()->\<close>). Both are undefined behaviour; the
  model stops with an error value.
\<close>

datatype error = DivisionByZero | NullPointer

text \<open>
  \<^verbatim>\<open>qreal\<close> is a double. Only the comparison \<^verbatim>\<open>value < 0.5\<close> is made on it, which is exact on
  finite doubles; the infinities and NaN are values of their own, and every comparison with
  NaN is false.
\<close>

datatype qreal = Finite real | PosInf | NegInf | NaN

fun qreal_less :: "qreal \<Rightarrow> qreal \<Rightarrow> bool" where
  "qreal_less NaN _ = False"
| "qreal_less _ NaN = False"
| "qreal_less (Finite x) (Finite y) = (x < y)"
| "qreal_less (Finite x) PosInf = True"
| "qreal_less (Finite x) NegInf = False"
| "qreal_less PosInf _ = False"
| "qreal_less NegInf NegInf = False"
| "qreal_less NegInf _ = True"

fun qreal_ge :: "qreal \<Rightarrow> qreal \<Rightarrow> bool" where
  "qreal_ge NaN _ = False"
| "qreal_ge _ NaN = False"
| "qreal_ge (Finite x) (Finite y) = (y \<le> x)"
| "qreal_ge (Finite x) PosInf = False"
| "qreal_ge (Finite x) NegInf = True"
| "qreal_ge PosInf _ = True"
| "qreal_ge NegInf NegInf = True"
| "qreal_ge NegInf _ = False"

type_synonym qpoint = "int \<times> int"
type_synonym qsize = "int \<times> int"

text \<open>\<^verbatim>\<open>QRect(topLeft, size)\<close>.\<close>

datatype qrect = QRect qpoint qsize

text \<open>The one cursor shape the file sets; an unset cursor is \<open>None\<close>.\<close>

datatype cursor_shape = BlankCursor

text \<open>\<^verbatim>\<open>Qt::WindowStates\<close> is a set of flags in an int; \<^verbatim>\<open>Qt::WindowFullScreen\<close> is 4.\<close>

type_synonym window_states = "32 word"

definition WindowFullScreen :: window_states where
  "WindowFullScreen = 4"

text \<open>
  The byte array of \<^verbatim>\<open>saveGeometry()\<close> is opaque; it is modelled by what it encodes, the
  position, size and window state of the widget. \<open>None\<close> is a byte array that
  \<^verbatim>\<open>restoreGeometry\<close> refuses, such as the empty one that \<^verbatim>\<open>value("geometry")\<close> gives when
  the key is absent.
\<close>

record saved_geometry =
  geo_pos :: qpoint
  geo_size :: qsize
  geo_state :: window_states

type_synonym qbytearray = "saved_geometry option"

text \<open>
  The settings store, keyed by group and key. It is typed: an entry written as an int is read
  as that int, one written as a byte array as that byte array (the conversions between
  the two kinds, which QVariant would make on an ill-typed store, are outside the model).
\<close>

record qsettings =
  int_entries :: "string \<times> string \<rightharpoonup> int"
  bytes_entries :: "string \<times> string \<rightharpoonup> qbytearray"

text \<open>
  The audio engine is known by its address. The file only calls its two registration
  functions, always with the scene \<^verbatim>\<open>vis_\<close> as the consumer; the model records the calls in
  order.
\<close>

type_synonym engine = nat

datatype engine_call = AddBufferConsumer engine | RemoveBufferConsumer engine

text \<open>An entry of the framerate menu: its label, the fps it maps to, whether it is checked.\<close>

type_synonym menu_item = "string \<times> int \<times> bool"

subsection \<open>The state\<close>

text \<open>
  \<open>engine_m\<close>, \<open>fps_m\<close> and \<open>update_timer_m\<close> are the members \<^verbatim>\<open>engine_\<close>, \<^verbatim>\<open>fps_\<close> and
  \<^verbatim>\<open>update_timer_\<close> of the class (a name cannot end in an underscore here). The timer is the
  interval of its last \<^verbatim>\<open>start\<close>, or \<open>None\<close> when it is stopped. \<open>visible\<close>, \<open>widget_pos\<close>,
  \<open>widget_size\<close>, \<open>windowState\<close> and \<open>cursor\<close> are the widget's own state in the toolkit.
  \<open>scene_set\<close> says that \<^verbatim>\<open>scene()\<close> is not null (it is then \<^verbatim>\<open>vis_\<close>); \<open>sceneRect\<close> and
  \<open>scene_updates\<close> are the rectangle last given to the scene and the number of repaints
  asked of it. The \<open>overlay_\<close> fields hold what was last passed to the overlay widget and to
  its proxy (\<open>None\<close>: not called yet). \<open>settings\<close> is the persistent store and
  \<open>engine_calls\<close> the calls made on audio engines so far.
\<close>

record container =
  engine_m :: "engine option"
  fps_m :: int
  update_timer_m :: "int option"
  visible :: bool
  widget_pos :: qpoint
  widget_size :: qsize
  windowState :: window_states
  cursor :: "cursor_shape option"
  scene_set :: bool
  sceneRect :: "qrect option"
  scene_updates :: nat
  overlay_size :: "qsize option"
  overlay_title :: "string option"
  overlay_visible :: "bool option"
  overlay_proxy_opacity :: qreal
  fps_group :: "menu_item list"
  settings :: qsettings
  engine_calls :: "engine_call list"

subsection \<open>Constants\<close>

definition kSettingsGroup :: string where
  "kSettingsGroup = ''Visualisations''"

definition kDefaultWidth :: int where
  "kDefaultWidth = 828"

definition kDefaultHeight :: int where
  "kDefaultHeight = 512"

definition kDefaultFps :: int where
  "kDefaultFps = 35"

subsection \<open>Toolkit calls\<close>

text \<open>\<^verbatim>\<open>isVisible()\<close>.\<close>

definition isVisible :: "container \<Rightarrow> bool" where
  "isVisible s = visible s"

text \<open>\<^verbatim>\<open>saveGeometry()\<close> and \<^verbatim>\<open>restoreGeometry(bytes)\<close>, which answers whether it succeeded.\<close>

definition saveGeometry :: "container \<Rightarrow> qbytearray" where
  "saveGeometry s =
     Some \<lparr>geo_pos = widget_pos s, geo_size = widget_size s, geo_state = windowState s\<rparr>"

definition restoreGeometry :: "qbytearray \<Rightarrow> container \<Rightarrow> bool \<times> container" where
  "restoreGeometry b s =
     (case b of
        None \<Rightarrow> (False, s)
      | Some g \<Rightarrow>
          (True, s\<lparr>widget_pos := geo_pos g, widget_size := geo_size g,
                   windowState := geo_state g\<rparr>))"

text \<open>\<^verbatim>\<open>s.value(key).toByteArray()\<close> and \<^verbatim>\<open>s.value(key, def).toInt()\<close> in a group.\<close>

definition value_bytes :: "qsettings \<Rightarrow> string \<Rightarrow> string \<Rightarrow> qbytearray" where
  "value_bytes st grp key = (case bytes_entries st (grp, key) of None \<Rightarrow> None | Some b \<Rightarrow> b)"

definition value_int :: "qsettings \<Rightarrow> string \<Rightarrow> string \<Rightarrow> int \<Rightarrow> int" where
  "value_int st grp key def = (case int_entries st (grp, key) of None \<Rightarrow> def | Some v \<Rightarrow> v)"

text \<open>\<^verbatim>\<open>s.setValue(key, v)\<close> in a group, for a byte array and for an int.\<close>

definition setValue_bytes :: "string \<Rightarrow> string \<Rightarrow> qbytearray \<Rightarrow> qsettings \<Rightarrow> qsettings" where
  "setValue_bytes grp key b st =
     st\<lparr>bytes_entries := (bytes_entries st)((grp, key) \<mapsto> b),
        int_entries := (int_entries st)((grp, key) := None)\<rparr>"

definition setValue_int :: "string \<Rightarrow> string \<Rightarrow> int \<Rightarrow> qsettings \<Rightarrow> qsettings" where
  "setValue_int grp key v st =
     st\<lparr>int_entries := (int_entries st)((grp, key) \<mapsto> v),
        bytes_entries := (bytes_entries st)((grp, key) := None)\<rparr>"

subsection \<open>The member functions\<close>

text \<open>
  \<^verbatim>\<open>SizeChanged\<close>: save the geometry, give the scene the rectangle at the origin with the
  widget's size (when there is a scene), resize the overlay.
\<close>

definition SizeChanged :: "container \<Rightarrow> container" where
  "SizeChanged s =
     (let s1 = s\<lparr>settings := setValue_bytes kSettingsGroup ''geometry'' (saveGeometry s) (settings s)\<rparr>;
          s2 = (if scene_set s1 then s1\<lparr>sceneRect := Some (QRect (0, 0) (widget_size s1))\<rparr> else s1)
      in s2\<lparr>overlay_size := Some (widget_size s2)\<rparr>)"

text \<open>\<^verbatim>\<open>ChangeOverlayOpacity\<close>.\<close>

definition ChangeOverlayOpacity :: "qreal \<Rightarrow> container \<Rightarrow> container" where
  "ChangeOverlayOpacity v s =
     (let s1 = s\<lparr>overlay_proxy_opacity := v\<rparr>
      in if qreal_less v (Finite (1 / 2)) then s1\<lparr>cursor := Some BlankCursor\<rparr>
         else s1\<lparr>cursor := None\<rparr>)"

text \<open>\<^verbatim>\<open>AddMenuItem\<close>: a checkable action, checked when its value is the current one.\<close>

definition AddMenuItem :: "string \<Rightarrow> int \<Rightarrow> int \<Rightarrow> menu_item list \<Rightarrow> menu_item list" where
  "AddMenuItem name v def grp = grp @ [(name, v, v = def)]"

text \<open>
  A widget as the toolkit makes it, with the members as the initialiser list of the
  constructor sets them: hidden, no window state, no cursor set, timer stopped, no engine.
\<close>

definition fresh :: "qsettings \<Rightarrow> container" where
  "fresh st =
     \<lparr>engine_m = None, fps_m = kDefaultFps, update_timer_m = None, visible = False,
      widget_pos = (0, 0), widget_size = (640, 480), windowState = 0, cursor = None,
      scene_set = False, sceneRect = None, scene_updates = 0, overlay_size = None,
      overlay_title = None, overlay_visible = None, overlay_proxy_opacity = Finite 1,
      fps_group = [], settings = st, engine_calls = []\<rparr>"

text \<open>
  The constructor, on the settings store it finds: set the scene, hide the cursor with the
  overlay, restore the geometry or take the default size, load \<open>fps_m\<close>, \<^verbatim>\<open>SizeChanged()\<close>, build
  the framerate menu.
\<close>

definition VisualisationContainer :: "qsettings \<Rightarrow> container" where
  "VisualisationContainer st =
     (let s0 = (fresh st)\<lparr>scene_set := True\<rparr>;
          s1 = ChangeOverlayOpacity (Finite 0) s0;
          (ok, r) = restoreGeometry (value_bytes (settings s1) kSettingsGroup ''geometry'') s1;
          s2 = (if \<not> ok then r\<lparr>widget_size := (kDefaultWidth, kDefaultHeight)\<rparr> else r);
          s3 = s2\<lparr>fps_m := value_int (settings s2) kSettingsGroup ''fps'' kDefaultFps\<rparr>;
          s4 = SizeChanged s3;
          g1 = AddMenuItem ''Low (15 fps)'' 15 (fps_m s4) [];
          g2 = AddMenuItem ''Medium (25 fps)'' 25 (fps_m s4) g1;
          g3 = AddMenuItem ''High (35 fps)'' 35 (fps_m s4) g2;
          g4 = AddMenuItem ''Super high (60 fps)'' 60 (fps_m s4) g3
      in s4\<lparr>fps_group := g4\<rparr>)"

text \<open>\<^verbatim>\<open>SetEngine\<close>: the engine pointer may be null (\<open>None\<close>); it is called through when visible.\<close>

definition SetEngine :: "engine option \<Rightarrow> container \<Rightarrow> error + container" where
  "SetEngine engine s =
     (let s1 = s\<lparr>engine_m := engine\<rparr>
      in if isVisible s1 then
           (case engine_m s1 of
              None \<Rightarrow> Inl NullPointer
            | Some e \<Rightarrow> Inr (s1\<lparr>engine_calls := engine_calls s1 @ [AddBufferConsumer e]\<rparr>))
         else Inr s1)"

text \<open>\<^verbatim>\<open>showEvent\<close> and \<^verbatim>\<open>hideEvent\<close>. The division of C++ truncates towards zero (\<open>sdiv\<close>).\<close>

definition showEvent :: "container \<Rightarrow> error + container" where
  "showEvent s =
     (if fps_m s = 0 then Inl DivisionByZero
      else
        let s1 = s\<lparr>update_timer_m := Some (1000 sdiv fps_m s)\<rparr>
        in case engine_m s1 of
             None \<Rightarrow> Inr s1
           | Some e \<Rightarrow> Inr (s1\<lparr>engine_calls := engine_calls s1 @ [AddBufferConsumer e]\<rparr>))"

definition hideEvent :: "container \<Rightarrow> container" where
  "hideEvent s =
     (let s1 = s\<lparr>update_timer_m := None\<rparr>
      in case engine_m s1 of
           None \<Rightarrow> s1
         | Some e \<Rightarrow> s1\<lparr>engine_calls := engine_calls s1 @ [RemoveBufferConsumer e]\<rparr>)"

text \<open>\<^verbatim>\<open>resizeEvent\<close>.\<close>

definition resizeEvent :: "container \<Rightarrow> container" where
  "resizeEvent s = SizeChanged s"

text \<open>
  \<^verbatim>\<open>timerEvent\<close>; the argument says whether the event's timer id is that of the update timer.
\<close>

definition timerEvent :: "bool \<Rightarrow> container \<Rightarrow> error + container" where
  "timerEvent is_update_timer s =
     (if is_update_timer then
        (if scene_set s then Inr (s\<lparr>scene_updates := scene_updates s + 1\<rparr>) else Inl NullPointer)
      else Inr s)"

text \<open>
  \<^verbatim>\<open>SongMetadataChanged\<close>, on the artist and the title of the song, and \<^verbatim>\<open>Stopped\<close> (the
  title is the untranslated one).
\<close>

definition SongMetadataChanged :: "string \<Rightarrow> string \<Rightarrow> container \<Rightarrow> container" where
  "SongMetadataChanged artist title s = s\<lparr>overlay_title := Some (artist @ '' - '' @ title)\<rparr>"

definition Stopped :: "container \<Rightarrow> container" where
  "Stopped s = s\<lparr>overlay_title := Some ''Clementine''\<rparr>"

text \<open>\<^verbatim>\<open>enterEvent\<close>, \<^verbatim>\<open>leaveEvent\<close>, \<^verbatim>\<open>mouseMoveEvent\<close>.\<close>

definition enterEvent :: "container \<Rightarrow> container" where
  "enterEvent s = s\<lparr>overlay_visible := Some True\<rparr>"

definition leaveEvent :: "container \<Rightarrow> container" where
  "leaveEvent s = s\<lparr>overlay_visible := Some False\<rparr>"

definition mouseMoveEvent :: "container \<Rightarrow> container" where
  "mouseMoveEvent s = s\<lparr>overlay_visible := Some True\<rparr>"

text \<open>\<^verbatim>\<open>ToggleFullscreen\<close> and \<^verbatim>\<open>mouseDoubleClickEvent\<close>.\<close>

definition ToggleFullscreen :: "container \<Rightarrow> container" where
  "ToggleFullscreen s = s\<lparr>windowState := windowState s XOR WindowFullScreen\<rparr>"

definition mouseDoubleClickEvent :: "container \<Rightarrow> container" where
  "mouseDoubleClickEvent s = ToggleFullscreen s"

text \<open>
  \<^verbatim>\<open>SetFps\<close>: store the framerate, save it, stop the timer and start it again. The division
  comes last, so a framerate of 0 fails after the store has been written; the error value
  does not carry the state.
\<close>

definition SetFps :: "int \<Rightarrow> container \<Rightarrow> error + container" where
  "SetFps fps s =
     (let s1 = s\<lparr>fps_m := fps\<rparr>;
          s2 = s1\<lparr>settings := setValue_int kSettingsGroup ''fps'' (fps_m s1) (settings s1)\<rparr>;
          s3 = s2\<lparr>update_timer_m := None\<rparr>
      in if fps_m s3 = 0 then Inl DivisionByZero
         else Inr (s3\<lparr>update_timer_m := Some (1000 sdiv fps_m s3)\<rparr>))"

subsection \<open>What the toolkit and the application do to the container\<close>

text \<open>
  The toolkit delivers \<^verbatim>\<open>showEvent\<close> when a hidden widget is shown and \<^verbatim>\<open>hideEvent\<close> when a
  shown one is hidden, after it has changed what \<^verbatim>\<open>isVisible()\<close> answers; showing a shown
  widget and hiding a hidden one deliver nothing. It delivers \<^verbatim>\<open>resizeEvent\<close> after it has
  changed the size. The other events are calls of the member function of that name.
\<close>

datatype event =
    Show
  | Hide
  | Resize qsize
  | Timer bool
  | Enter
  | Leave
  | MouseMove
  | MouseDoubleClick
  | CallSetEngine "engine option"
  | CallSetFps int
  | CallToggleFullscreen
  | CallChangeOverlayOpacity qreal
  | CallSongMetadataChanged string string
  | CallStopped

fun deliver :: "event \<Rightarrow> container \<Rightarrow> error + container" where
  "deliver Show s = (if visible s then Inr s else showEvent (s\<lparr>visible := True\<rparr>))"
| "deliver Hide s = (if visible s then Inr (hideEvent (s\<lparr>visible := False\<rparr>)) else Inr s)"
| "deliver (Resize sz) s = Inr (resizeEvent (s\<lparr>widget_size := sz\<rparr>))"
| "deliver (Timer b) s = timerEvent b s"
| "deliver Enter s = Inr (enterEvent s)"
| "deliver Leave s = Inr (leaveEvent s)"
| "deliver MouseMove s = Inr (mouseMoveEvent s)"
| "deliver MouseDoubleClick s = Inr (mouseDoubleClickEvent s)"
| "deliver (CallSetEngine e) s = SetEngine e s"
| "deliver (CallSetFps f) s = SetFps f s"
| "deliver CallToggleFullscreen s = Inr (ToggleFullscreen s)"
| "deliver (CallChangeOverlayOpacity v) s = Inr (ChangeOverlayOpacity v s)"
| "deliver (CallSongMetadataChanged a t) s = Inr (SongMetadataChanged a t s)"
| "deliver CallStopped s = Inr (Stopped s)"

text \<open>A sequence of events, stopping at the first failure.\<close>

fun run :: "container \<Rightarrow> event list \<Rightarrow> error + container" where
  "run s [] = Inr s"
| "run s (e # es) = (case deliver e s of Inl err \<Rightarrow> Inl err | Inr s' \<Rightarrow> run s' es)"

text \<open>The settings store with nothing in it.\<close>

definition no_settings :: qsettings where
  "no_settings = \<lparr>int_entries = Map.empty, bytes_entries = Map.empty\<rparr>"

subsection \<open>Reading the calls made on the engines\<close>

text \<open>
  A list of calls is paired when it is a sequence of subscriptions each directly followed by
  the removal from the same engine.
\<close>

fun paired :: "engine_call list \<Rightarrow> bool" where
  "paired [] = True"
| "paired (AddBufferConsumer e # RemoveBufferConsumer e' # cs) = (e = e' \<and> paired cs)"
| "paired _ = False"

text \<open>
  The engines that hold the scene as a consumer after a list of calls, from those that
  held it before: a subscription adds the engine, a removal takes it away.
\<close>

fun consumers :: "engine_call list \<Rightarrow> engine set \<Rightarrow> engine set" where
  "consumers [] R = R"
| "consumers (AddBufferConsumer e # cs) R = consumers cs (insert e R)"
| "consumers (RemoveBufferConsumer e # cs) R = consumers cs (R - {e})"

text \<open>
  The restriction under which subscriptions pair up: \<^verbatim>\<open>SetEngine\<close> is not called while the
  container is visible and already has an engine.
\<close>

definition engine_idle :: "container \<Rightarrow> event \<Rightarrow> bool" where
  "engine_idle s ev =
     (case ev of CallSetEngine _ \<Rightarrow> \<not> visible s \<or> engine_m s = None | _ \<Rightarrow> True)"

fun disciplined :: "container \<Rightarrow> event list \<Rightarrow> bool" where
  "disciplined s [] = True"
| "disciplined s (ev # es) =
     (engine_idle s ev \<and>
      (case deliver ev s of Inl _ \<Rightarrow> True | Inr s' \<Rightarrow> disciplined s' es))"

text \<open>
  What the subscriptions look like in a state: with the container visible and an engine
  set, paired calls and then one subscription to that engine; otherwise paired calls.
\<close>

definition subscription_shape :: "container \<Rightarrow> bool" where
  "subscription_shape s =
     (if visible s \<and> engine_m s \<noteq> None
      then engine_calls s \<noteq> [] \<and>
           last (engine_calls s) = AddBufferConsumer (the (engine_m s)) \<and>
           paired (butlast (engine_calls s))
      else paired (engine_calls s))"

text \<open>The number of subscriptions and the number of removals in a list of calls.\<close>

fun subscriptions :: "engine_call list \<Rightarrow> nat" where
  "subscriptions [] = 0"
| "subscriptions (AddBufferConsumer e # cs) = Suc (subscriptions cs)"
| "subscriptions (RemoveBufferConsumer e # cs) = subscriptions cs"

fun removals :: "engine_call list \<Rightarrow> nat" where
  "removals [] = 0"
| "removals (AddBufferConsumer e # cs) = removals cs"
| "removals (RemoveBufferConsumer e # cs) = Suc (removals cs)"

text \<open>The values passed to \<^verbatim>\<open>SetFps\<close> in a sequence of events.\<close>

fun passed_fps :: "event list \<Rightarrow> int list" where
  "passed_fps [] = []"
| "passed_fps (CallSetFps f # es) = f # passed_fps es"
| "passed_fps (_ # es) = passed_fps es"

text \<open>
  The timer follows the framerate in a state when, the container being visible, the timer runs
  at the interval \<^verbatim>\<open>1000 / fps_\<close>.
\<close>

definition timer_follows_fps :: "container \<Rightarrow> bool" where
  "timer_follows_fps s = (if visible s then update_timer_m s = Some (1000 sdiv fps_m s) else True)"

section \<open>Facts about the handlers\<close>

lemma fps_SizeChanged: "fps_m (SizeChanged s) = fps_m s"
  by (simp add: SizeChanged_def Let_def)

lemma settings_ChangeOverlayOpacity: "settings (ChangeOverlayOpacity v s) = settings s"
  by (simp add: ChangeOverlayOpacity_def Let_def)

lemma settings_restoreGeometry: "settings (snd (restoreGeometry b s)) = settings s"
  by (simp add: restoreGeometry_def split: option.splits)

lemma fps_VisualisationContainer:
  "fps_m (VisualisationContainer st) = value_int st kSettingsGroup ''fps'' kDefaultFps"
  by (simp add: VisualisationContainer_def Let_def fps_SizeChanged split_beta
      settings_ChangeOverlayOpacity settings_restoreGeometry fresh_def)

lemmas handler_defs = showEvent_def hideEvent_def resizeEvent_def SizeChanged_def timerEvent_def
  enterEvent_def leaveEvent_def mouseMoveEvent_def mouseDoubleClickEvent_def ToggleFullscreen_def
  SetEngine_def SetFps_def ChangeOverlayOpacity_def SongMetadataChanged_def Stopped_def
  isVisible_def

lemmas constructor_defs = VisualisationContainer_def fresh_def restoreGeometry_def SizeChanged_def
  ChangeOverlayOpacity_def

lemma visible_VisualisationContainer: "visible (VisualisationContainer st) = False"
  by (simp add: constructor_defs Let_def split_beta split: option.splits)

lemma engine_VisualisationContainer: "engine_m (VisualisationContainer st) = None"
  by (simp add: constructor_defs Let_def split_beta split: option.splits)

lemma calls_VisualisationContainer: "engine_calls (VisualisationContainer st) = []"
  by (simp add: constructor_defs Let_def split_beta split: option.splits)

lemma timer_VisualisationContainer: "update_timer_m (VisualisationContainer st) = None"
  by (simp add: constructor_defs Let_def split_beta split: option.splits)

lemma scene_VisualisationContainer: "scene_set (VisualisationContainer st) = True"
  by (simp add: constructor_defs Let_def split_beta split: option.splits)

lemmas constructor_fields = visible_VisualisationContainer engine_VisualisationContainer
  calls_VisualisationContainer timer_VisualisationContainer scene_VisualisationContainer
  fps_VisualisationContainer

lemma fps_no_settings: "value_int no_settings kSettingsGroup ''fps'' kDefaultFps = 35"
  by (simp add: value_int_def no_settings_def kDefaultFps_def)

lemma sdiv_pos: "0 < f \<Longrightarrow> (1000::int) sdiv f = 1000 div f"
  by (simp add: signed_divide_int_def)

lemma paired_append: "paired cs \<Longrightarrow> paired (cs @ [AddBufferConsumer e, RemoveBufferConsumer e])"
  by (induction cs rule: paired.induct) simp_all

lemma paired_close:
  assumes "cs \<noteq> []" and "last cs = AddBufferConsumer e" and "paired (butlast cs)"
  shows "paired (cs @ [RemoveBufferConsumer e])"
proof -
  have "paired (butlast cs @ [AddBufferConsumer e, RemoveBufferConsumer e])"
    using assms(3) by (rule paired_append)
  moreover have "butlast cs @ [AddBufferConsumer e, RemoveBufferConsumer e] = cs @ [RemoveBufferConsumer e]"
    using assms(1,2) by (metis append.assoc append_Cons append_Nil append_butlast_last_id)
  ultimately show ?thesis by simp
qed


lemma deliver_scene_set: "deliver ev s = Inr s' \<Longrightarrow> scene_set s' = scene_set s"
  by (cases ev) (auto simp: handler_defs Let_def split: if_splits option.splits)

lemma deliver_visible:
  "deliver ev s = Inr s' \<Longrightarrow> ev \<noteq> Show \<Longrightarrow> ev \<noteq> Hide \<Longrightarrow> visible s' = visible s"
  by (cases ev) (auto simp: handler_defs Let_def split: if_splits option.splits)

lemma deliver_engine:
  "deliver ev s = Inr s' \<Longrightarrow> \<forall>eo. ev \<noteq> CallSetEngine eo \<Longrightarrow> engine_m s' = engine_m s"
  by (cases ev) (auto simp: handler_defs Let_def split: if_splits option.splits)

lemma deliver_calls:
  "deliver ev s = Inr s' \<Longrightarrow> ev \<noteq> Show \<Longrightarrow> ev \<noteq> Hide \<Longrightarrow> \<forall>eo. ev \<noteq> CallSetEngine eo \<Longrightarrow>
   engine_calls s' = engine_calls s"
  by (cases ev) (auto simp: handler_defs Let_def split: if_splits option.splits)

lemma deliver_fps:
  "deliver ev s = Inr s' \<Longrightarrow> \<forall>f. ev \<noteq> CallSetFps f \<Longrightarrow> fps_m s' = fps_m s"
  by (cases ev) (auto simp: handler_defs Let_def split: if_splits option.splits)

lemma deliver_timer:
  "deliver ev s = Inr s' \<Longrightarrow> ev \<noteq> Show \<Longrightarrow> ev \<noteq> Hide \<Longrightarrow> \<forall>f. ev \<noteq> CallSetFps f \<Longrightarrow>
   update_timer_m s' = update_timer_m s"
  by (cases ev) (auto simp: handler_defs Let_def split: if_splits option.splits)

lemmas deliver_frame = deliver_visible deliver_engine deliver_calls deliver_fps deliver_timer

lemma shape_frame:
  "visible s' = visible s \<Longrightarrow> engine_m s' = engine_m s \<Longrightarrow> engine_calls s' = engine_calls s \<Longrightarrow>
   subscription_shape s' = subscription_shape s"
  by (auto simp: subscription_shape_def)

lemma showEvent_result:
  "showEvent s =
     (if fps_m s = 0 then Inl DivisionByZero
      else Inr (s\<lparr>update_timer_m := Some (1000 sdiv fps_m s),
                   engine_calls := engine_calls s @
                     (case engine_m s of None \<Rightarrow> [] | Some e \<Rightarrow> [AddBufferConsumer e])\<rparr>))"
  by (simp add: showEvent_def Let_def split: option.splits)

lemma hideEvent_result:
  "hideEvent s =
     s\<lparr>update_timer_m := None,
       engine_calls := engine_calls s @
         (case engine_m s of None \<Rightarrow> [] | Some e \<Rightarrow> [RemoveBufferConsumer e])\<rparr>"
  by (simp add: hideEvent_def Let_def split: option.splits)

lemma SetEngine_result:
  "SetEngine eo s =
     (if visible s then
        (case eo of None \<Rightarrow> Inl NullPointer
         | Some e \<Rightarrow> Inr (s\<lparr>engine_m := Some e,
                              engine_calls := engine_calls s @ [AddBufferConsumer e]\<rparr>))
      else Inr (s\<lparr>engine_m := eo\<rparr>))"
  by (simp add: SetEngine_def isVisible_def Let_def split: option.splits)

lemma shape_Show:
  assumes "subscription_shape s" and "deliver Show s = Inr s'"
  shows "subscription_shape s'"
proof (cases "visible s")
  case True
  with assms show ?thesis by simp
next
  case False
  with assms(1) have p: "paired (engine_calls s)"
    by (simp add: subscription_shape_def)
  from assms(2) False have "fps_m s \<noteq> 0"
    by (auto simp: showEvent_result)
  with assms(2) False have s': "s' = s\<lparr>visible := True, update_timer_m := Some (1000 sdiv fps_m s),
      engine_calls := engine_calls s @
        (case engine_m s of None \<Rightarrow> [] | Some e \<Rightarrow> [AddBufferConsumer e])\<rparr>"
    by (simp add: showEvent_result)
  show ?thesis
    unfolding s' using p by (cases "engine_m s") (simp_all add: subscription_shape_def)
qed

lemma shape_Hide:
  assumes "subscription_shape s" and "deliver Hide s = Inr s'"
  shows "subscription_shape s'"
proof (cases "visible s")
  case False
  with assms show ?thesis by simp
next
  case True
  with assms(2) have s': "s' = s\<lparr>visible := False, update_timer_m := None,
      engine_calls := engine_calls s @
        (case engine_m s of None \<Rightarrow> [] | Some e \<Rightarrow> [RemoveBufferConsumer e])\<rparr>"
    by (simp add: hideEvent_result)
  show ?thesis
  proof (cases "engine_m s")
    case None
    with assms(1) True show ?thesis
      unfolding s' by (simp add: subscription_shape_def)
  next
    case (Some e)
    with assms(1) True have "paired (engine_calls s @ [RemoveBufferConsumer e])"
      by (simp add: subscription_shape_def paired_close)
    with Some show ?thesis
      unfolding s' by (simp add: subscription_shape_def)
  qed
qed

lemma shape_SetEngine:
  assumes "engine_idle s (CallSetEngine eo)" and "subscription_shape s"
    and "deliver (CallSetEngine eo) s = Inr s'"
  shows "subscription_shape s'"
proof (cases "visible s")
  case False
  with assms(3) have "s' = s\<lparr>engine_m := eo\<rparr>"
    by (simp add: SetEngine_result)
  with False assms(2) show ?thesis
    by (simp add: subscription_shape_def)
next
  case True
  with assms(1) have none: "engine_m s = None"
    by (simp add: engine_idle_def)
  from True assms(3) obtain e where "eo = Some e"
    and s': "s' = s\<lparr>engine_m := Some e, engine_calls := engine_calls s @ [AddBufferConsumer e]\<rparr>"
    by (cases eo) (simp_all add: SetEngine_result)
  from assms(2) none have "paired (engine_calls s)"
    by (simp add: subscription_shape_def)
  with True show ?thesis
    unfolding s' by (simp add: subscription_shape_def)
qed

lemma deliver_shape:
  assumes "engine_idle s ev" and "subscription_shape s" and "deliver ev s = Inr s'"
  shows "subscription_shape s'"
proof (cases "ev = Show \<or> ev = Hide \<or> (\<exists>eo. ev = CallSetEngine eo)")
  case False
  then have ns: "ev \<noteq> Show" "ev \<noteq> Hide" "\<forall>eo. ev \<noteq> CallSetEngine eo"
    by auto
  have "visible s' = visible s"
    by (rule deliver_visible [OF assms(3) ns(1,2)])
  moreover have "engine_m s' = engine_m s"
    by (rule deliver_engine [OF assms(3) ns(3)])
  moreover have "engine_calls s' = engine_calls s"
    by (rule deliver_calls [OF assms(3) ns])
  ultimately have "subscription_shape s' = subscription_shape s"
    by (rule shape_frame)
  with assms(2) show ?thesis
    by simp
next
  case True
  then consider "ev = Show" | "ev = Hide" | eo where "ev = CallSetEngine eo"
    by blast
  then show ?thesis
  proof cases
    case 1
    with assms(2,3) show ?thesis by (blast intro: shape_Show)
  next
    case 2
    with assms(2,3) show ?thesis by (blast intro: shape_Hide)
  next
    case 3
    with assms show ?thesis by (blast intro: shape_SetEngine)
  qed
qed

lemma run_shape:
  "disciplined s es \<Longrightarrow> subscription_shape s \<Longrightarrow> run s es = Inr t \<Longrightarrow> subscription_shape t"
proof (induction es arbitrary: s)
  case Nil
  then show ?case by simp
next
  case (Cons ev es)
  from Cons.prems(3) obtain s' where d: "deliver ev s = Inr s'" and r: "run s' es = Inr t"
    by (auto split: sum.splits)
  from Cons.prems(1) d have "engine_idle s ev" and "disciplined s' es"
    by simp_all
  moreover from this(1) Cons.prems(2) d have "subscription_shape s'"
    by (rule deliver_shape)
  ultimately show ?case
    using r Cons.IH by blast
qed

lemma shape_VisualisationContainer: "subscription_shape (VisualisationContainer st)"
  by (simp add: subscription_shape_def constructor_fields)

lemma consumers_append: "consumers (xs @ ys) R = consumers ys (consumers xs R)"
  by (induction xs R rule: consumers.induct) simp_all

lemma consumers_paired: "paired cs \<Longrightarrow> consumers cs {} = {}"
  by (induction cs rule: paired.induct) simp_all

lemma SetFps_result:
  "SetFps f s =
     (if f = 0 then Inl DivisionByZero
      else Inr (s\<lparr>fps_m := f,
                   settings := setValue_int kSettingsGroup ''fps'' f (settings s),
                   update_timer_m := Some (1000 sdiv f)\<rparr>))"
  by (simp add: SetFps_def Let_def)

lemma run_scene_set: "run s es = Inr t \<Longrightarrow> scene_set t = scene_set s"
proof (induction es arbitrary: s)
  case Nil
  then show ?case by simp
next
  case (Cons ev es)
  from Cons.prems obtain s' where d: "deliver ev s = Inr s'" and r: "run s' es = Inr t"
    by (auto split: sum.splits)
  from d have "scene_set s' = scene_set s"
    by (rule deliver_scene_set)
  with Cons.IH [OF r] show ?case by simp
qed

lemma deliver_timer_follows:
  assumes "timer_follows_fps s" and "deliver ev s = Inr s'"
  shows "timer_follows_fps s'"
proof (cases "ev = Show \<or> ev = Hide \<or> (\<exists>f. ev = CallSetFps f)")
  case True
  then consider "ev = Show" | "ev = Hide" | f where "ev = CallSetFps f"
    by blast
  then show ?thesis
  proof cases
    case 1
    with assms show ?thesis
      by (auto simp: timer_follows_fps_def showEvent_result split: if_splits)
  next
    case 2
    with assms show ?thesis
      by (auto simp: timer_follows_fps_def hideEvent_result split: if_splits)
  next
    case 3
    with assms show ?thesis
      by (auto simp: timer_follows_fps_def SetFps_result split: if_splits)
  qed
next
  case False
  then have ns: "ev \<noteq> Show" "ev \<noteq> Hide" "\<forall>f. ev \<noteq> CallSetFps f"
    by auto
  have "visible s' = visible s"
    by (rule deliver_visible [OF assms(2) ns(1,2)])
  moreover have "fps_m s' = fps_m s"
    by (rule deliver_fps [OF assms(2) ns(3)])
  moreover have "update_timer_m s' = update_timer_m s"
    by (rule deliver_timer [OF assms(2) ns])
  ultimately show ?thesis
    using assms(1) by (simp add: timer_follows_fps_def)
qed

lemma run_timer_follows:
  "timer_follows_fps s \<Longrightarrow> run s es = Inr t \<Longrightarrow> timer_follows_fps t"
proof (induction es arbitrary: s)
  case Nil
  then show ?case by simp
next
  case (Cons ev es)
  from Cons.prems(2) obtain s' where d: "deliver ev s = Inr s'" and r: "run s' es = Inr t"
    by (auto split: sum.splits)
  from Cons.prems(1) d have "timer_follows_fps s'"
    by (rule deliver_timer_follows)
  then show ?case
    using r by (rule Cons.IH)
qed

lemmas run_simps = constructor_fields fps_no_settings showEvent_result hideEvent_result
  SetEngine_result SetFps_result engine_idle_def

lemma subscriptions_append: "subscriptions (xs @ ys) = subscriptions xs + subscriptions ys"
  by (induction xs rule: subscriptions.induct) simp_all

lemma removals_append: "removals (xs @ ys) = removals xs + removals ys"
  by (induction xs rule: removals.induct) simp_all

lemma paired_counts: "paired cs \<Longrightarrow> subscriptions cs = removals cs"
  by (induction cs rule: paired.induct) simp_all

lemma shape_counts:
  assumes "subscription_shape s"
  shows "subscriptions (engine_calls s) =
           removals (engine_calls s) + (if visible s \<and> engine_m s \<noteq> None then 1 else 0)"
proof (cases "visible s \<and> engine_m s \<noteq> None")
  case False
  with assms show ?thesis
    by (auto simp: subscription_shape_def paired_counts)
next
  case True
  with assms have ne: "engine_calls s \<noteq> []"
    and l: "last (engine_calls s) = AddBufferConsumer (the (engine_m s))"
    and p: "paired (butlast (engine_calls s))"
    by (simp_all add: subscription_shape_def)
  from ne l have "engine_calls s = butlast (engine_calls s) @ [AddBufferConsumer (the (engine_m s))]"
    by (metis append_butlast_last_id)
  then have "subscriptions (engine_calls s) = subscriptions (butlast (engine_calls s)) + 1"
    and "removals (engine_calls s) = removals (butlast (engine_calls s))"
    by (metis subscriptions_append subscriptions.simps(1,2) One_nat_def,
        metis removals_append removals.simps(1,2) add.right_neutral)
  with p True show ?thesis
    by (simp add: paired_counts)
qed

lemma shape_consumers:
  assumes "subscription_shape s"
  shows "consumers (engine_calls s) {} =
           (if visible s then (case engine_m s of None \<Rightarrow> {} | Some e \<Rightarrow> {e}) else {})"
proof (cases "visible s \<and> engine_m s \<noteq> None")
  case False
  with assms have "paired (engine_calls s)"
    by (simp add: subscription_shape_def)
  then have "consumers (engine_calls s) {} = {}"
    by (rule consumers_paired)
  with False show ?thesis
    by (auto split: option.splits)
next
  case True
  then obtain e where e: "engine_m s = Some e"
    by auto
  from True assms have ne: "engine_calls s \<noteq> []"
    and l: "last (engine_calls s) = AddBufferConsumer (the (engine_m s))"
    and p: "paired (butlast (engine_calls s))"
    by (simp_all add: subscription_shape_def)
  from ne l e have "engine_calls s = butlast (engine_calls s) @ [AddBufferConsumer e]"
    by (metis append_butlast_last_id option.sel)
  then have "consumers (engine_calls s) {} =
      consumers [AddBufferConsumer e] (consumers (butlast (engine_calls s)) {})"
    by (metis consumers_append)
  with p True e show ?thesis
    by (simp add: consumers_paired)
qed

lemma fps_zero_settings:
  "value_int (no_settings\<lparr>int_entries := [(''Visualisations'', ''fps'') \<mapsto> 0]\<rparr>)
     kSettingsGroup ''fps'' kDefaultFps = 0"
  by (simp add: value_int_def kSettingsGroup_def)

lemma qreal_ge_not_less: "qreal_ge v w \<Longrightarrow> \<not> qreal_less v w"
  by (cases v; cases w) simp_all

lemma bit_fullscreen: "bit (4 :: 32 word) n = (n = 2)"
proof -
  have "(4 :: 32 word) = push_bit 2 1"
    by simp
  then show ?thesis
    by (simp only: bit_push_bit_iff) (auto simp: bit_1_iff)
qed

lemma bit_toggle:
  "bit (w XOR (4 :: 32 word)) n = (if n = 2 then \<not> bit w n else bit w n)"
  by (simp only: bit_xor_iff bit_fullscreen) auto

lemma xor_twice: "(w XOR a) XOR a = (w :: 32 word)"
  by (simp add: xor.assoc)

lemma run_append:
  "run s (xs @ ys) = (case run s xs of Inl err \<Rightarrow> Inl err | Inr s' \<Rightarrow> run s' ys)"
  by (induction xs arbitrary: s) (simp_all split: sum.splits)

lemma passed_fps_Cons:
  "0 \<notin> set (passed_fps (ev # es)) \<Longrightarrow> ev \<noteq> CallSetFps 0 \<and> 0 \<notin> set (passed_fps es)"
  by (cases ev) auto

lemma passed_fps_Nil:
  "passed_fps (ev # es) = [] \<Longrightarrow> (\<forall>f. ev \<noteq> CallSetFps f) \<and> passed_fps es = []"
  by (cases ev) auto

lemma deliver_no_division:
  "fps_m s \<noteq> 0 \<Longrightarrow> ev \<noteq> CallSetFps 0 \<Longrightarrow> deliver ev s \<noteq> Inl DivisionByZero"
  by (cases ev) (auto simp: handler_defs Let_def split: option.splits)

lemma deliver_fps_nonzero:
  assumes "deliver ev s = Inr s'" and "fps_m s \<noteq> 0" and "ev \<noteq> CallSetFps 0"
  shows "fps_m s' \<noteq> 0"
proof (cases "\<exists>f. ev = CallSetFps f")
  case True
  then obtain f where "ev = CallSetFps f"
    by blast
  with assms(1,3) show ?thesis
    by (auto simp: SetFps_result split: if_splits)
next
  case False
  then have "\<forall>f. ev \<noteq> CallSetFps f"
    by simp
  with assms(1) have "fps_m s' = fps_m s"
    by (rule deliver_fps)
  with assms(2) show ?thesis
    by simp
qed

lemma run_no_division:
  "fps_m s \<noteq> 0 \<Longrightarrow> 0 \<notin> set (passed_fps es) \<Longrightarrow> run s es \<noteq> Inl DivisionByZero"
proof (induction es arbitrary: s)
  case Nil
  then show ?case by simp
next
  case (Cons ev es)
  from Cons.prems(2) have ev: "ev \<noteq> CallSetFps 0" and es: "0 \<notin> set (passed_fps es)"
    by (simp_all add: passed_fps_Cons)
  show ?case
  proof (cases "deliver ev s")
    case (Inl err)
    with deliver_no_division [OF Cons.prems(1) ev] show ?thesis
      by simp
  next
    case (Inr s')
    then have "fps_m s' \<noteq> 0"
      using Cons.prems(1) ev by (rule deliver_fps_nonzero)
    then have "run s' es \<noteq> Inl DivisionByZero"
      using es by (rule Cons.IH)
    with Inr show ?thesis
      by simp
  qed
qed

lemma deliver_hidden_stopped:
  assumes "deliver ev s = Inr s'" and "\<forall>f. ev \<noteq> CallSetFps f"
    and "\<not> visible s \<longrightarrow> update_timer_m s = None"
  shows "\<not> visible s' \<longrightarrow> update_timer_m s' = None"
proof (cases "ev = Show \<or> ev = Hide")
  case True
  with assms(1,3) show ?thesis
    by (auto simp: showEvent_result hideEvent_result split: if_splits)
next
  case False
  then have ns: "ev \<noteq> Show" "ev \<noteq> Hide"
    by auto
  have "visible s' = visible s"
    by (rule deliver_visible [OF assms(1) ns])
  moreover have "update_timer_m s' = update_timer_m s"
    by (rule deliver_timer [OF assms(1) ns assms(2)])
  ultimately show ?thesis
    using assms(3) by simp
qed

lemma run_hidden_stopped:
  "passed_fps es = [] \<Longrightarrow> \<not> visible s \<longrightarrow> update_timer_m s = None \<Longrightarrow> run s es = Inr t \<Longrightarrow>
   \<not> visible t \<longrightarrow> update_timer_m t = None"
proof (induction es arbitrary: s)
  case Nil
  then show ?case by simp
next
  case (Cons ev es)
  from Cons.prems(1) have ev: "\<forall>f. ev \<noteq> CallSetFps f" and es: "passed_fps es = []"
    by (simp_all add: passed_fps_Nil)
  from Cons.prems(3) obtain s' where d: "deliver ev s = Inr s'" and r: "run s' es = Inr t"
    by (auto split: sum.splits)
  from d ev Cons.prems(2) have "\<not> visible s' \<longrightarrow> update_timer_m s' = None"
    by (rule deliver_hidden_stopped)
  with es show ?case
    using r by (rule Cons.IH)
qed

section \<open>The framerate loaded by the constructor\<close>

text \<open>
  C7. The constructor leaves \<open>fps_m\<close> at the default 35 when the group Visualisations of the
  settings store has no entry fps, and at the stored integer when it has one.
\<close>

theorem C7_constructor_fps:
  "fps_m (VisualisationContainer st) =
     (case int_entries st (''Visualisations'', ''fps'') of None \<Rightarrow> 35 | Some v \<Rightarrow> v)"
  by (simp add: fps_VisualisationContainer value_int_def kSettingsGroup_def kDefaultFps_def)

section \<open>Setting the framerate\<close>

text \<open>
  C1. For every positive \<open>f\<close>, \<^verbatim>\<open>SetFps(f)\<close> returns, sets \<open>fps_\<close> to \<open>f\<close>, writes \<open>f\<close> under the
  key fps of the group Visualisations, and leaves the timer running at the interval
  \<open>1000 div f\<close>, changing nothing else. And in every state the container reaches from its
  construction, while it is visible the timer runs at \<^verbatim>\<open>1000 / fps_\<close>.
\<close>

theorem C1_SetFps:
  "(0 < f \<longrightarrow>
      (\<exists>s'. SetFps f s = Inr s' \<and> fps_m s' = f \<and>
            int_entries (settings s') (''Visualisations'', ''fps'') = Some f \<and>
            update_timer_m s' = Some (1000 div f) \<and>
            s' = s\<lparr>fps_m := f, settings := settings s', update_timer_m := Some (1000 div fps_m s')\<rparr>)) \<and>
   (run (VisualisationContainer st) es = Inr t \<longrightarrow> visible t \<longrightarrow>
      update_timer_m t = Some (1000 sdiv fps_m t))"
proof (intro conjI impI)
  assume "0 < f"
  then show "\<exists>s'. SetFps f s = Inr s' \<and> fps_m s' = f \<and>
            int_entries (settings s') (''Visualisations'', ''fps'') = Some f \<and>
            update_timer_m s' = Some (1000 div f) \<and>
            s' = s\<lparr>fps_m := f, settings := settings s', update_timer_m := Some (1000 div fps_m s')\<rparr>"
    by (simp add: SetFps_result sdiv_pos kSettingsGroup_def setValue_int_def)
next
  assume r: "run (VisualisationContainer st) es = Inr t" and v: "visible t"
  have "timer_follows_fps (VisualisationContainer st)"
    by (simp add: timer_follows_fps_def constructor_fields)
  then have "timer_follows_fps t"
    using r by (rule run_timer_follows)
  with v show "update_timer_m t = Some (1000 sdiv fps_m t)"
    by (simp add: timer_follows_fps_def)
qed

theorem C1_SetFps_witness:
  "(0::int) < 25 \<and>
   map_sum id fps_m (SetFps 25 (VisualisationContainer no_settings)) = Inr 25 \<and>
   map_sum id update_timer_m (SetFps 25 (VisualisationContainer no_settings)) = Inr (Some 40) \<and>
   map_sum id visible (run (VisualisationContainer no_settings) [Show, CallSetFps 25]) = Inr True \<and>
   map_sum id update_timer_m (run (VisualisationContainer no_settings) [Show, CallSetFps 25]) = Inr (Some 40)"
  using C1_SetFps [of 25 "VisualisationContainer no_settings" no_settings "[Show, CallSetFps 25]"]
  by (simp add: run_simps)

section \<open>Showing and hiding\<close>

text \<open>
  C2, as the file has it. \<^verbatim>\<open>showEvent\<close> with \<open>fps_\<close> not zero starts the timer at the interval
  \<^verbatim>\<open>1000 / fps_\<close> and, when an engine is set, makes one \<^verbatim>\<open>AddBufferConsumer\<close> call on it; with no
  engine set it makes no call. \<^verbatim>\<open>hideEvent\<close> stops the timer and, when an engine is set, makes
  one \<^verbatim>\<open>RemoveBufferConsumer\<close> call on it; with no engine set it makes no call. Neither changes
  anything else.
\<close>

theorem C2_show_hide:
  "(fps_m s \<noteq> 0 \<longrightarrow>
      showEvent s =
        Inr (s\<lparr>update_timer_m := Some (1000 sdiv fps_m s),
               engine_calls := engine_calls s @
                 (case engine_m s of None \<Rightarrow> [] | Some e \<Rightarrow> [AddBufferConsumer e])\<rparr>)) \<and>
   hideEvent s =
     s\<lparr>update_timer_m := None,
       engine_calls := engine_calls s @
         (case engine_m s of None \<Rightarrow> [] | Some e \<Rightarrow> [RemoveBufferConsumer e])\<rparr>"
  by (simp add: showEvent_def hideEvent_def Let_def split: option.splits)

text \<open>
  The claim as the specification words it fails on the container as constructed: no engine
  is set, and \<^verbatim>\<open>showEvent\<close> registers the scene nowhere. With a stored framerate of 0 the
  division stops \<^verbatim>\<open>showEvent\<close> before the timer starts.
\<close>

theorem C2_counterexample:
  "map_sum id engine_calls (showEvent (VisualisationContainer no_settings)) = Inr [] \<and>
   showEvent (VisualisationContainer
      (no_settings\<lparr>int_entries := [(''Visualisations'', ''fps'') \<mapsto> 0]\<rparr>)) = Inl DivisionByZero"
  by (simp add: run_simps fps_zero_settings)

theorem C2_show_hide_witness:
  "fps_m ((VisualisationContainer no_settings)\<lparr>engine_m := Some 5\<rparr>) \<noteq> 0 \<and>
   map_sum id update_timer_m (showEvent ((VisualisationContainer no_settings)\<lparr>engine_m := Some 5\<rparr>)) =
     Inr (Some 28) \<and>
   map_sum id engine_calls (showEvent ((VisualisationContainer no_settings)\<lparr>engine_m := Some 5\<rparr>)) =
     Inr [AddBufferConsumer 5]"
  using C2_show_hide [of "(VisualisationContainer no_settings)\<lparr>engine_m := Some 5\<rparr>"]
  by (simp add: run_simps)

section \<open>Subscriptions and removals pair up\<close>

text \<open>
  C3, as the file has it. Take any sequence of events from the constructed container in which
  \<^verbatim>\<open>SetEngine\<close> is never called while the container is visible and already has an engine.
  Then the calls on the engines are subscriptions each directly followed by the removal from
  the same engine, with one more subscription at the end exactly when the container is visible
  and has an engine; so there are as many subscriptions as removals, plus that one. From the
  state reached, showing the hidden container adds exactly one subscription when an engine is
  set and none otherwise, and hiding the visible container adds exactly one removal when an
  engine is set and none otherwise.
\<close>

theorem C3_subscriptions_pair:
  assumes "disciplined (VisualisationContainer st) es"
    and "run (VisualisationContainer st) es = Inr s"
  shows "subscription_shape s \<and>
         subscriptions (engine_calls s) =
           removals (engine_calls s) + (if visible s \<and> engine_m s \<noteq> None then 1 else 0) \<and>
         (\<not> visible s \<and> fps_m s \<noteq> 0 \<longrightarrow>
            map_sum id engine_calls (deliver Show s) =
              Inr (engine_calls s @ (case engine_m s of None \<Rightarrow> [] | Some e \<Rightarrow> [AddBufferConsumer e]))) \<and>
         (visible s \<longrightarrow>
            map_sum id engine_calls (deliver Hide s) =
              Inr (engine_calls s @ (case engine_m s of None \<Rightarrow> [] | Some e \<Rightarrow> [RemoveBufferConsumer e])))"
proof -
  have "subscription_shape s"
    using assms(1) shape_VisualisationContainer assms(2) by (rule run_shape)
  then show ?thesis
    by (simp add: shape_counts showEvent_result hideEvent_result)
qed

text \<open>
  Without the restriction the claim fails: \<^verbatim>\<open>SetEngine\<close> called again while the container is
  visible subscribes the scene a second time, with no removal in between.
\<close>

theorem C3_counterexample:
  "map_sum id engine_calls
     (run (VisualisationContainer no_settings) [CallSetEngine (Some 0), Show, CallSetEngine (Some 0)]) =
   Inr [AddBufferConsumer 0, AddBufferConsumer 0]"
  by (simp add: run_simps)

theorem C3_subscriptions_pair_witness:
  "disciplined (VisualisationContainer no_settings) [CallSetEngine (Some 0), Show, Hide, Show] \<and>
   map_sum id engine_calls
     (run (VisualisationContainer no_settings) [CallSetEngine (Some 0), Show, Hide, Show]) =
   Inr [AddBufferConsumer 0, RemoveBufferConsumer 0, AddBufferConsumer 0] \<and>
   subscriptions [AddBufferConsumer 0, RemoveBufferConsumer 0, AddBufferConsumer 0] =
   removals [AddBufferConsumer 0, RemoveBufferConsumer 0, AddBufferConsumer 0] + 1"
proof -
  let ?es = "[CallSetEngine (Some 0), Show, Hide, Show]"
  let ?s = "(VisualisationContainer no_settings)\<lparr>engine_m := Some 0, visible := True,
    update_timer_m := Some 28,
    engine_calls := [AddBufferConsumer 0, RemoveBufferConsumer 0, AddBufferConsumer 0]\<rparr>"
  have d: "disciplined (VisualisationContainer no_settings) ?es"
    by (simp add: run_simps)
  have r: "run (VisualisationContainer no_settings) ?es = Inr ?s"
    by (simp add: run_simps)
  from C3_subscriptions_pair [OF d r] d r show ?thesis
    by simp
qed

section \<open>The scene is a consumer only while the container is shown\<close>

text \<open>
  C4, as the file has it. Under the same restriction on \<^verbatim>\<open>SetEngine\<close>, in every state reached
  from the constructed container the engines that hold the scene as a consumer are: the
  current engine alone when the container is visible and has one, and none otherwise; in
  particular none while the container is hidden.
\<close>

theorem C4_registered_only_while_shown:
  assumes "disciplined (VisualisationContainer st) es"
    and "run (VisualisationContainer st) es = Inr s"
  shows "consumers (engine_calls s) {} =
           (if visible s then (case engine_m s of None \<Rightarrow> {} | Some e \<Rightarrow> {e}) else {})"
proof -
  have "subscription_shape s"
    using assms(1) shape_VisualisationContainer assms(2) by (rule run_shape)
  then show ?thesis
    by (rule shape_consumers)
qed

text \<open>
  Without the restriction the claim fails: when the engine is replaced while the container is
  visible, hiding removes the scene from the new engine only, and the old one keeps it while
  the container is hidden.
\<close>

theorem C4_counterexample:
  "map_sum id visible
     (run (VisualisationContainer no_settings)
        [CallSetEngine (Some 1), Show, CallSetEngine (Some 2), Hide]) = Inr False \<and>
   map_sum id engine_calls
     (run (VisualisationContainer no_settings)
        [CallSetEngine (Some 1), Show, CallSetEngine (Some 2), Hide]) =
     Inr [AddBufferConsumer 1, AddBufferConsumer 2, RemoveBufferConsumer 2] \<and>
   consumers [AddBufferConsumer 1, AddBufferConsumer 2, RemoveBufferConsumer 2] {} = {1}"
  by (simp add: run_simps)

theorem C4_registered_only_while_shown_witness:
  "disciplined (VisualisationContainer no_settings) [Show, CallSetEngine (Some 3), Hide] \<and>
   map_sum id visible
     (run (VisualisationContainer no_settings) [Show, CallSetEngine (Some 3), Hide]) = Inr False \<and>
   map_sum id engine_calls
     (run (VisualisationContainer no_settings) [Show, CallSetEngine (Some 3), Hide]) =
     Inr [AddBufferConsumer 3, RemoveBufferConsumer 3] \<and>
   consumers [AddBufferConsumer 3, RemoveBufferConsumer 3] {} = {}"
proof -
  let ?es = "[Show, CallSetEngine (Some 3), Hide]"
  let ?s = "(VisualisationContainer no_settings)\<lparr>engine_m := Some 3, visible := False,
    update_timer_m := None,
    engine_calls := [AddBufferConsumer 3, RemoveBufferConsumer 3]\<rparr>"
  have d: "disciplined (VisualisationContainer no_settings) ?es"
    by (simp add: run_simps)
  have r: "run (VisualisationContainer no_settings) ?es = Inr ?s"
    by (simp add: run_simps)
  from C4_registered_only_while_shown [OF d r] d r show ?thesis
    by simp
qed

section \<open>Resizing\<close>

text \<open>
  C5. In every state the container reaches from its construction, a resize to a new size
  returns, gives the scene the rectangle at the origin with the new size, resizes the overlay
  to the new size, and stores the saved geometry (position, new size, window state) under the
  key geometry of the group Visualisations.
\<close>

theorem C5_resize:
  assumes "run (VisualisationContainer st) es = Inr s"
  shows "\<exists>s'. deliver (Resize sz) s = Inr s' \<and> s' = resizeEvent (s\<lparr>widget_size := sz\<rparr>) \<and>
           widget_size s' = sz \<and>
           sceneRect s' = Some (QRect (0, 0) sz) \<and>
           overlay_size s' = Some sz \<and>
           bytes_entries (settings s') (''Visualisations'', ''geometry'') = Some (saveGeometry s') \<and>
           saveGeometry s' =
             Some \<lparr>geo_pos = widget_pos s, geo_size = sz, geo_state = windowState s\<rparr>"
proof -
  from assms have "scene_set s = scene_set (VisualisationContainer st)"
    by (rule run_scene_set)
  then have "scene_set s"
    by (simp add: constructor_fields)
  then show ?thesis
    by (simp add: resizeEvent_def SizeChanged_def Let_def saveGeometry_def setValue_bytes_def
        kSettingsGroup_def)
qed

theorem C5_resize_witness:
  "map_sum id visible (run (VisualisationContainer no_settings) [Show]) = Inr True \<and>
   map_sum id sceneRect (run (VisualisationContainer no_settings) [Show, Resize (800, 600)]) =
     Inr (Some (QRect (0, 0) (800, 600))) \<and>
   map_sum id overlay_size (run (VisualisationContainer no_settings) [Show, Resize (800, 600)]) =
     Inr (Some (800, 600))"
proof -
  let ?s = "(VisualisationContainer no_settings)\<lparr>visible := True, update_timer_m := Some 28,
    engine_calls := []\<rparr>"
  have r: "run (VisualisationContainer no_settings) [Show] = Inr ?s"
    by (simp add: run_simps)
  have r2: "run (VisualisationContainer no_settings) [Show, Resize (800, 600)] =
      Inr (resizeEvent (?s\<lparr>widget_size := (800, 600)\<rparr>))"
    by (simp add: run_simps)
  from C5_resize [OF r, of "(800, 600)"] show ?thesis
    unfolding r r2 by simp
qed

section \<open>The opacity of the overlay and the cursor\<close>

text \<open>
  C6. \<^verbatim>\<open>ChangeOverlayOpacity(v)\<close> gives the proxy the opacity \<open>v\<close>, sets the blank cursor exactly
  when \<open>v < 0.5\<close> and unsets the cursor otherwise, so for every \<open>v \<ge> 0.5\<close>; it changes
  nothing else.
\<close>

theorem C6_overlay_opacity:
  "overlay_proxy_opacity (ChangeOverlayOpacity v s) = v \<and>
   cursor (ChangeOverlayOpacity v s) =
     (if qreal_less v (Finite (1 / 2)) then Some BlankCursor else None) \<and>
   (qreal_ge v (Finite (1 / 2)) \<longrightarrow> cursor (ChangeOverlayOpacity v s) = None) \<and>
   ChangeOverlayOpacity v s =
     s\<lparr>overlay_proxy_opacity := v, cursor := cursor (ChangeOverlayOpacity v s)\<rparr>"
  by (auto simp: ChangeOverlayOpacity_def Let_def dest: qreal_ge_not_less)

theorem C6_overlay_opacity_witness:
  "qreal_ge (Finite (3 / 4)) (Finite (1 / 2)) \<and>
   cursor (ChangeOverlayOpacity (Finite (3 / 4)) (VisualisationContainer no_settings)) = None \<and>
   cursor (ChangeOverlayOpacity (Finite (1 / 4)) (VisualisationContainer no_settings)) =
     Some BlankCursor"
  using C6_overlay_opacity [of "Finite (3 / 4)" "VisualisationContainer no_settings"]
    C6_overlay_opacity [of "Finite (1 / 4)" "VisualisationContainer no_settings"]
  by simp

section \<open>Fullscreen\<close>

text \<open>
  C8. A double click does what one \<^verbatim>\<open>ToggleFullscreen\<close> does; \<^verbatim>\<open>ToggleFullscreen\<close> changes only
  the window state, by an exclusive or with the fullscreen flag, which flips bit 2 and keeps
  every other bit; and two toggles give back the state they started from.
\<close>

theorem C8_toggle_fullscreen:
  "mouseDoubleClickEvent s = ToggleFullscreen s \<and>
   ToggleFullscreen s = s\<lparr>windowState := windowState s XOR 4\<rparr> \<and>
   (\<forall>n. bit (windowState (ToggleFullscreen s)) n =
          (if n = 2 then \<not> bit (windowState s) n else bit (windowState s) n)) \<and>
   ToggleFullscreen (ToggleFullscreen s) = s"
proof -
  have "windowState (ToggleFullscreen s) = windowState s XOR 4"
    by (simp add: ToggleFullscreen_def WindowFullScreen_def)
  then have "\<forall>n. bit (windowState (ToggleFullscreen s)) n =
          (if n = 2 then \<not> bit (windowState s) n else bit (windowState s) n)"
    by (simp only: bit_toggle) simp
  moreover have "ToggleFullscreen (ToggleFullscreen s) = s"
    by (simp add: ToggleFullscreen_def xor_twice)
  ultimately show ?thesis
    by (simp add: mouseDoubleClickEvent_def ToggleFullscreen_def WindowFullScreen_def)
qed

section \<open>The unguarded division\<close>

text \<open>
  C9. \<^verbatim>\<open>showEvent\<close> divides by zero exactly when \<open>fps_\<close> is 0, and \<^verbatim>\<open>SetFps(f)\<close> exactly when
  \<open>f\<close> is 0. The constructor takes the stored framerate as it is, whatever its value. And
  from the constructed container, no sequence of events that passes no 0 to \<^verbatim>\<open>SetFps\<close> ever
  divides by zero, if and only if the framerate the constructor loaded is not 0.
\<close>

theorem C9_division_by_zero:
  "(showEvent s = Inl DivisionByZero) = (fps_m s = 0) \<and>
   (SetFps f s = Inl DivisionByZero) = (f = 0) \<and>
   fps_m (VisualisationContainer st) =
     (case int_entries st (''Visualisations'', ''fps'') of None \<Rightarrow> 35 | Some v \<Rightarrow> v) \<and>
   ((\<forall>es. 0 \<notin> set (passed_fps es) \<longrightarrow>
          run (VisualisationContainer st) es \<noteq> Inl DivisionByZero) =
    (fps_m (VisualisationContainer st) \<noteq> 0))"
proof (intro conjI)
  show "(showEvent s = Inl DivisionByZero) = (fps_m s = 0)"
    by (simp add: showEvent_result)
  show "(SetFps f s = Inl DivisionByZero) = (f = 0)"
    by (simp add: SetFps_result)
  show "fps_m (VisualisationContainer st) =
     (case int_entries st (''Visualisations'', ''fps'') of None \<Rightarrow> 35 | Some v \<Rightarrow> v)"
    by (simp add: fps_VisualisationContainer value_int_def kSettingsGroup_def kDefaultFps_def)
  show "(\<forall>es. 0 \<notin> set (passed_fps es) \<longrightarrow>
          run (VisualisationContainer st) es \<noteq> Inl DivisionByZero) =
    (fps_m (VisualisationContainer st) \<noteq> 0)"
  proof
    assume a: "\<forall>es. 0 \<notin> set (passed_fps es) \<longrightarrow>
          run (VisualisationContainer st) es \<noteq> Inl DivisionByZero"
    show "fps_m (VisualisationContainer st) \<noteq> 0"
    proof
      assume z: "fps_m (VisualisationContainer st) = 0"
      then have "run (VisualisationContainer st) [Show] = Inl DivisionByZero"
        by (simp add: visible_VisualisationContainer showEvent_result)
      moreover have "0 \<notin> set (passed_fps [Show])"
        by simp
      ultimately show False
        using a by blast
    qed
  next
    assume "fps_m (VisualisationContainer st) \<noteq> 0"
    then show "\<forall>es. 0 \<notin> set (passed_fps es) \<longrightarrow>
          run (VisualisationContainer st) es \<noteq> Inl DivisionByZero"
      by (simp add: run_no_division)
  qed
qed

theorem C9_division_by_zero_witness:
  "fps_m (VisualisationContainer no_settings) \<noteq> 0 \<and>
   0 \<notin> set (passed_fps [CallSetFps 60, Show, Hide, CallSetFps 15, Show]) \<and>
   run (VisualisationContainer no_settings) [CallSetFps 60, Show, Hide, CallSetFps 15, Show]
     \<noteq> Inl DivisionByZero"
proof -
  have nz: "fps_m (VisualisationContainer no_settings) \<noteq> 0"
    by (simp add: run_simps)
  have p: "0 \<notin> set (passed_fps [CallSetFps 60, Show, Hide, CallSetFps 15, Show])"
    by simp
  from C9_division_by_zero [of _ _ no_settings] nz
  have "\<forall>es. 0 \<notin> set (passed_fps es) \<longrightarrow>
          run (VisualisationContainer no_settings) es \<noteq> Inl DivisionByZero"
    by blast
  with p have "run (VisualisationContainer no_settings)
      [CallSetFps 60, Show, Hide, CallSetFps 15, Show] \<noteq> Inl DivisionByZero"
    by blast
  with nz p show ?thesis
    by blast
qed

section \<open>Setting the framerate while hidden\<close>

text \<open>
  C10. \<^verbatim>\<open>SetFps(f)\<close> with \<open>f\<close> not zero leaves the timer running at \<^verbatim>\<open>1000 / f\<close> and does not
  change whether the container is visible. In a state reached from the constructed container
  without \<^verbatim>\<open>SetFps\<close>, a hidden container has its timer stopped; and \<^verbatim>\<open>SetFps(f)\<close> called in
  such a hidden state leaves the container hidden with the timer running.
\<close>

theorem C10_SetFps_while_hidden:
  "(f \<noteq> 0 \<longrightarrow>
      map_sum id update_timer_m (SetFps f s) = Inr (Some (1000 sdiv f)) \<and>
      map_sum id visible (SetFps f s) = Inr (visible s)) \<and>
   (passed_fps es = [] \<longrightarrow> run (VisualisationContainer st) es = Inr t \<longrightarrow> \<not> visible t \<longrightarrow>
      update_timer_m t = None \<and>
      (f \<noteq> 0 \<longrightarrow>
         map_sum id visible (run (VisualisationContainer st) (es @ [CallSetFps f])) = Inr False \<and>
         map_sum id update_timer_m (run (VisualisationContainer st) (es @ [CallSetFps f])) =
           Inr (Some (1000 sdiv f))))"
proof (intro conjI impI)
  assume "f \<noteq> 0"
  then show "map_sum id update_timer_m (SetFps f s) = Inr (Some (1000 sdiv f))"
    and "map_sum id visible (SetFps f s) = Inr (visible s)"
    by (simp_all add: SetFps_result)
next
  assume p: "passed_fps es = []" and r: "run (VisualisationContainer st) es = Inr t"
    and h: "\<not> visible t"
  have "\<not> visible (VisualisationContainer st) \<longrightarrow> update_timer_m (VisualisationContainer st) = None"
    by (simp add: constructor_fields)
  with p have "\<not> visible t \<longrightarrow> update_timer_m t = None"
    using r by (rule run_hidden_stopped)
  with h show "update_timer_m t = None"
    by simp
next
  assume r: "run (VisualisationContainer st) es = Inr t" and h: "\<not> visible t" and f: "f \<noteq> 0"
  from r f h show "map_sum id visible (run (VisualisationContainer st) (es @ [CallSetFps f])) = Inr False"
    by (simp add: run_append SetFps_result)
  from r f show "map_sum id update_timer_m (run (VisualisationContainer st) (es @ [CallSetFps f])) =
           Inr (Some (1000 sdiv f))"
    by (simp add: run_append SetFps_result)
qed

theorem C10_SetFps_while_hidden_witness:
  "(25 :: int) \<noteq> 0 \<and> passed_fps [Show, Hide] = [] \<and>
   map_sum id visible (run (VisualisationContainer no_settings) [Show, Hide]) = Inr False \<and>
   map_sum id update_timer_m (run (VisualisationContainer no_settings) [Show, Hide]) = Inr None \<and>
   map_sum id visible (run (VisualisationContainer no_settings) [Show, Hide, CallSetFps 25]) =
     Inr False \<and>
   map_sum id update_timer_m (run (VisualisationContainer no_settings) [Show, Hide, CallSetFps 25]) =
     Inr (Some 40)"
proof -
  let ?t = "(VisualisationContainer no_settings)\<lparr>visible := False, update_timer_m := None,
    engine_calls := []\<rparr>"
  have r: "run (VisualisationContainer no_settings) [Show, Hide] = Inr ?t"
    by (simp add: run_simps)
  have h: "\<not> visible ?t"
    by simp
  have p: "passed_fps [Show, Hide] = []"
    by simp
  have e: "[Show, Hide] @ [CallSetFps 25] = [Show, Hide, CallSetFps 25]"
    by simp
  have s: "(1000 :: int) sdiv 25 = 40"
    by (simp add: sdiv_pos)
  from C10_SetFps_while_hidden [of 25 ?t "[Show, Hide]" no_settings ?t] r h p
  show ?thesis
    unfolding e s r by simp
qed

end
